theory Spec2Isabelle
  imports Main "HOL-Library.Word"
begin

unbundle bit_operations_syntax

section \<open>Data model of the packet codecs (parser/packet\_codec.go)\<close>

text \<open>
  A Go \<^verbatim>\<open>byte\<close> is an 8-bit word. A Go slice \<^verbatim>\<open>[]byte\<close> is either
  \<^verbatim>\<open>nil\<close> (\<open>None\<close>) or a sequence of bytes (\<open>Some xs\<close>); \<^verbatim>\<open>len\<close> of
  the nil slice is 0, and reading the bytes of a nil slice gives none.
\<close>

type_synonym byte = "8 word"

type_synonym slice = "byte list option"

definition len :: "slice \<Rightarrow> nat" where
  "len s = (case s of None \<Rightarrow> 0 | Some xs \<Rightarrow> length xs)"

definition bytes_of :: "slice \<Rightarrow> byte list" where
  "bytes_of s = (case s of None \<Rightarrow> [] | Some xs \<Rightarrow> xs)"

text \<open>The conversion \<^verbatim>\<open>[]byte("...")\<close> of an ASCII string literal.\<close>

definition ascii :: "string \<Rightarrow> byte list" where
  "ascii cs = map of_char cs"

text \<open>
  Modelled from the spec: the declarations of \<^verbatim>\<open>PacketType\<close>, of its seven constants,
  of the \<^verbatim>\<open>Packet\<close> struct, of the \<^verbatim>\<open>BINARY\<close> flag and of \<^verbatim>\<open>NewPacketCustom\<close>
  are outside packet\_codec.go. The spec gives the type as an enumeration whose raw numeric
  value fits one byte (OPEN=0 ... NOOP=6), the packet as the three fields Type, Data and
  Flag, and BINARY as a marker different from the zero flag of the string codec. The source
  converts between \<^verbatim>\<open>PacketType\<close> and \<^verbatim>\<open>byte\<close> in both directions, so the type
  is a byte here; the value 1 of BINARY is a choice (nothing below depends on it but that
  it is not 0).
\<close>

type_synonym PacketType = byte

definition OPEN :: PacketType where "OPEN = 0"
definition CLOSE :: PacketType where "CLOSE = 1"
definition PING :: PacketType where "PING = 2"
definition PONG :: PacketType where "PONG = 3"
definition MESSAGE :: PacketType where "MESSAGE = 4"
definition UPGRADE :: PacketType where "UPGRADE = 5"
definition NOOP :: PacketType where "NOOP = 6"

type_synonym PacketOption = byte

definition BINARY :: PacketOption where "BINARY = 1"

record Packet =
  Type :: PacketType
  Data :: slice
  Flag :: PacketOption

definition NewPacketCustom :: "PacketType \<Rightarrow> slice \<Rightarrow> PacketOption \<Rightarrow> Packet" where
  "NewPacketCustom t d f = \<lparr>Type = t, Data = d, Flag = f\<rparr>"

text \<open>The seven valid members of the enumeration, as a predicate for the statements.\<close>

definition valid_type :: "PacketType \<Rightarrow> bool" where
  "valid_type t \<longleftrightarrow> t \<in> {OPEN, CLOSE, PING, PONG, MESSAGE, UPGRADE, NOOP}"

text \<open>
  The errors of the source, named by their kinds in the spec:
  \<^item> \<open>EmptyInput\<close> is \<^verbatim>\<open>errors.New("packet bytes is empty")\<close>;
  \<^item> \<open>InvalidPacketType v\<close> is \<^verbatim>\<open>fmt.Errorf("invalid packet type: ...", v)\<close>;
  \<^item> \<open>InvalidFraming buf\<close> is \<^verbatim>\<open>fmt.Errorf("invalid b64 packet: %s", data)\<close>;
  \<^item> \<open>InvalidPayloadEncoding\<close> is the \<^verbatim>\<open>CorruptInputError\<close> of encoding/base64
    (its offset is not modelled);
  \<^item> \<open>SinkWriteFailure\<close> is an error returned by the \<^verbatim>\<open>io.Writer\<close>.
\<close>

datatype error =
    EmptyInput
  | InvalidPacketType byte
  | InvalidFraming "byte list"
  | InvalidPayloadEncoding
  | SinkWriteFailure

section \<open>The type/char table\<close>

text \<open>
  \<^verbatim>\<open>convertCharToType\<close> returns \<^verbatim>\<open>(0xFF, err)\<close> in the default case; every caller
  drops the value when \<^verbatim>\<open>err != nil\<close>, so the result is a sum.
\<close>

definition convertCharToType :: "byte \<Rightarrow> error + PacketType" where
  "convertCharToType c =
     (if c = 0x30 then Inr OPEN
      else if c = 0x31 then Inr CLOSE
      else if c = 0x32 then Inr PING
      else if c = 0x33 then Inr PONG
      else if c = 0x34 then Inr MESSAGE
      else if c = 0x35 then Inr UPGRADE
      else if c = 0x36 then Inr NOOP
      else Inl (InvalidPacketType c))"

definition convertTypeToChar :: "PacketType \<Rightarrow> error + byte" where
  "convertTypeToChar ptype =
     (if ptype = OPEN then Inr 0x30
      else if ptype = CLOSE then Inr 0x31
      else if ptype = PING then Inr 0x32
      else if ptype = PONG then Inr 0x33
      else if ptype = MESSAGE then Inr 0x34
      else if ptype = UPGRADE then Inr 0x35
      else if ptype = NOOP then Inr 0x36
      else Inl (InvalidPacketType ptype))"

text \<open>
  The ASCII digits \<^verbatim>\<open>'0'\<close> ... \<^verbatim>\<open>'6'\<close> of the table, as a predicate for the
  statements.
\<close>

definition is_type_digit :: "byte \<Rightarrow> bool" where
  "is_type_digit c \<longleftrightarrow> c \<in> {0x30, 0x31, 0x32, 0x33, 0x34, 0x35, 0x36}"

section \<open>The sink of writeTo\<close>

text \<open>
  An \<^verbatim>\<open>io.Writer\<close> is a state and its \<^verbatim>\<open>Write\<close> method, which takes the state and
  a slice and returns the new state and the error, if any (the byte count that \<^verbatim>\<open>Write\<close>
  also returns is dropped at every call of the source).
\<close>

type_synonym 's Writer = "'s \<Rightarrow> slice \<Rightarrow> 's \<times> error option"

text \<open>\<^verbatim>\<open>bytes.Buffer\<close>: the state is the content, \<^verbatim>\<open>Write\<close> appends and never fails.\<close>

definition Buffer_Write :: "byte list Writer" where
  "Buffer_Write bf p = (bf @ bytes_of p, None)"

text \<open>A sink that records the argument of every \<^verbatim>\<open>Write\<close> call, in order.\<close>

definition Recorder_Write :: "slice list Writer" where
  "Recorder_Write calls p = (calls @ [p], None)"

section \<open>Binary codec\<close>

definition binCodec_decode :: "slice \<Rightarrow> error + Packet" where
  "binCodec_decode data =
     (case data of
        None \<Rightarrow> Inl EmptyInput
      | Some [] \<Rightarrow> Inl EmptyInput
      | Some (d0 # rest) \<Rightarrow>
          (let t = d0 in
           if t = OPEN \<or> t = CLOSE \<or> t = PING \<or> t = PONG \<or> t = MESSAGE \<or> t = UPGRADE \<or> t = NOOP
           then Inr (NewPacketCustom t (Some rest) BINARY)
           else Inl (InvalidPacketType t)))"

definition binCodec_writeTo :: "'s Writer \<Rightarrow> 's \<Rightarrow> Packet \<Rightarrow> 's \<times> error option" where
  "binCodec_writeTo write w packet =
     (case write w (Some [Type packet]) of
        (w1, Some err) \<Rightarrow> (w1, Some err)
      | (w1, None) \<Rightarrow>
          if Data packet = None \<or> len (Data packet) < 1 then (w1, None)
          else write w1 (Data packet))"

definition binCodec_encode :: "Packet \<Rightarrow> error + byte list" where
  "binCodec_encode packet =
     (case binCodec_writeTo Buffer_Write [] packet of
        (bf, Some err) \<Rightarrow> Inl err
      | (bf, None) \<Rightarrow> Inr bf)"

section \<open>String codec\<close>

definition strCodec_decode :: "slice \<Rightarrow> error + Packet" where
  "strCodec_decode data =
     (case data of
        None \<Rightarrow> Inl EmptyInput
      | Some [] \<Rightarrow> Inl EmptyInput
      | Some (d0 # rest) \<Rightarrow>
          (case convertCharToType d0 of
             Inl err \<Rightarrow> Inl err
           | Inr t \<Rightarrow> Inr (NewPacketCustom t (Some rest) 0)))"

definition strCodec_writeTo :: "'s Writer \<Rightarrow> 's \<Rightarrow> Packet \<Rightarrow> 's \<times> error option" where
  "strCodec_writeTo write w packet =
     (case convertTypeToChar (Type packet) of
        Inl err \<Rightarrow> (w, Some err)
      | Inr t \<Rightarrow>
          (case write w (Some [t]) of
             (w1, Some err) \<Rightarrow> (w1, Some err)
           | (w1, None) \<Rightarrow> write w1 (Data packet)))"

definition strCodec_encode :: "Packet \<Rightarrow> error + byte list" where
  "strCodec_encode packet =
     (case strCodec_writeTo Buffer_Write [] packet of
        (bf, Some err) \<Rightarrow> Inl err
      | (bf, None) \<Rightarrow> Inr bf)"

section \<open>Standard base64 (Go's encoding/base64, StdEncoding)\<close>

text \<open>
  Modelled from the spec: \<^verbatim>\<open>base64.StdEncoding\<close> belongs to Go's standard library, not
  to this repository. The spec asks for standard base64 with padding; the model follows the
  library's encoder and decoder for that encoding: the alphabet of RFC 4648, \<^verbatim>\<open>'='\<close>
  padding to a multiple of four characters, a decoder that skips CR and LF, demands the
  padding, refuses anything after it, and does not check the unused low bits of the last
  character (the library's non-strict mode, its default).
\<close>

definition encodeStd :: string where
  "encodeStd = ''ABCDEFGHIJKLMNOPQRSTUVWXYZabcdefghijklmnopqrstuvwxyz0123456789+/''"

text \<open>\<^verbatim>\<open>enc.encode[i]\<close>: the character of a 6-bit value.\<close>

definition enc_encode :: "32 word \<Rightarrow> byte" where
  "enc_encode i = of_char (encodeStd ! unat i)"

text \<open>
  \<^verbatim>\<open>enc.decodeMap\<close>: 256 entries, all \<^verbatim>\<open>0xFF\<close> at first, then entry
  \<^verbatim>\<open>encoder[i]\<close> is set to \<^verbatim>\<open>i\<close> for each index of the alphabet in turn.
\<close>

fun fill_decodeMap :: "string \<Rightarrow> nat \<Rightarrow> (byte \<Rightarrow> byte) \<Rightarrow> (byte \<Rightarrow> byte)" where
  "fill_decodeMap [] i m = m"
| "fill_decodeMap (c # cs) i m = fill_decodeMap cs (Suc i) (m(of_char c := of_nat i))"

definition decodeMap :: "byte \<Rightarrow> byte" where
  "decodeMap = fill_decodeMap encodeStd 0 (\<lambda>_. 0xFF)"

text \<open>Three bytes make 24 bits, written as four characters of six bits each.\<close>

definition enc_quantum :: "byte \<Rightarrow> byte \<Rightarrow> byte \<Rightarrow> byte list" where
  "enc_quantum a b c =
     (let val = push_bit 16 (ucast a :: 32 word) OR push_bit 8 (ucast b) OR ucast c
      in [enc_encode (drop_bit 18 val AND 0x3F), enc_encode (drop_bit 12 val AND 0x3F),
          enc_encode (drop_bit 6 val AND 0x3F), enc_encode (val AND 0x3F)])"

text \<open>
  \<^verbatim>\<open>EncodeToString\<close>: whole groups of three bytes first, then the one or two bytes
  that remain, padded with \<^verbatim>\<open>'='\<close> (\<^verbatim>\<open>0x3D\<close>).
\<close>

fun EncodeToString :: "byte list \<Rightarrow> byte list" where
  "EncodeToString (a # b # c # rest) = enc_quantum a b c @ EncodeToString rest"
| "EncodeToString [a, b] =
     (let val = push_bit 16 (ucast a :: 32 word) OR push_bit 8 (ucast b)
      in [enc_encode (drop_bit 18 val AND 0x3F), enc_encode (drop_bit 12 val AND 0x3F),
          enc_encode (drop_bit 6 val AND 0x3F), 0x3D])"
| "EncodeToString [a] =
     (let val = push_bit 16 (ucast a :: 32 word)
      in [enc_encode (drop_bit 18 val AND 0x3F), enc_encode (drop_bit 12 val AND 0x3F),
          0x3D, 0x3D])"
| "EncodeToString [] = []"

definition is_newline :: "byte \<Rightarrow> bool" where
  "is_newline c \<longleftrightarrow> c = 0x0A \<or> c = 0x0D"

text \<open>
  The bytes of one quantum: \<open>dbuf\<close> holds the 6-bit values read so far (two, three or
  four of them; the library's buffer of four is zero where nothing was read), and a
  quantum of \<open>n\<close> values gives \<open>n - 1\<close> bytes.
\<close>

definition quantum_bytes :: "byte list \<Rightarrow> byte list" where
  "quantum_bytes dbuf =
     (let d = dbuf @ replicate (4 - length dbuf) 0;
          val = push_bit 18 (ucast (d ! 0) :: 32 word) OR push_bit 12 (ucast (d ! 1))
                OR push_bit 6 (ucast (d ! 2)) OR ucast (d ! 3)
      in take (length dbuf - 1) [ucast (drop_bit 16 val), ucast (drop_bit 8 val), ucast val])"

text \<open>
  The decoder's loop over the input, one character at a time: \<open>dbuf\<close> is the part of
  the current quantum read so far. Input that ends inside a quantum, a character outside
  the alphabet (CR and LF apart, which are skipped), padding after fewer than two
  characters of a quantum, a single \<^verbatim>\<open>'='\<close> where two are due, and anything but CR and
  LF after the padding are all corrupt input.
\<close>

fun decode_from :: "byte list \<Rightarrow> byte list \<Rightarrow> error + byte list" where
  "decode_from dbuf [] = (if dbuf = [] then Inr [] else Inl InvalidPayloadEncoding)"
| "decode_from dbuf (c # src) =
     (let out = decodeMap c in
      if out \<noteq> 0xFF then
        (if length dbuf = 3 then
           (case decode_from [] src of
              Inl err \<Rightarrow> Inl err
            | Inr rest \<Rightarrow> Inr (quantum_bytes (dbuf @ [out]) @ rest))
         else decode_from (dbuf @ [out]) src)
      else if c = 0x0A \<or> c = 0x0D then decode_from dbuf src
      else if c \<noteq> 0x3D then Inl InvalidPayloadEncoding
      else if length dbuf < 2 then Inl InvalidPayloadEncoding
      else if length dbuf = 2 then
        (case dropWhile is_newline src of
           [] \<Rightarrow> Inl InvalidPayloadEncoding
         | c2 # src2 \<Rightarrow>
             if c2 \<noteq> 0x3D then Inl InvalidPayloadEncoding
             else if dropWhile is_newline src2 \<noteq> [] then Inl InvalidPayloadEncoding
             else Inr (quantum_bytes dbuf))
      else if dropWhile is_newline src \<noteq> [] then Inl InvalidPayloadEncoding
      else Inr (quantum_bytes dbuf))"

definition DecodeString :: "byte list \<Rightarrow> error + byte list" where
  "DecodeString s = decode_from [] s"

section \<open>Base64 codec\<close>

text \<open>
  \<^verbatim>\<open>len(data) < 1\<close> holds of the nil slice and of the empty one; \<^verbatim>\<open>0x62\<close> is
  \<^verbatim>\<open>'b'\<close>. \<^verbatim>\<open>make([]byte, 0)\<close> and the result of \<^verbatim>\<open>DecodeString\<close> are slices
  that are not nil.
\<close>

definition b64Codec_decode :: "slice \<Rightarrow> error + Packet" where
  "b64Codec_decode data =
     (case data of
        None \<Rightarrow> Inl EmptyInput
      | Some [] \<Rightarrow> Inl EmptyInput
      | Some [d0] \<Rightarrow>
          (case convertCharToType d0 of
             Inl err \<Rightarrow> Inl err
           | Inr t \<Rightarrow> Inr (NewPacketCustom t (Some []) BINARY))
      | Some (d0 # d1 # rest) \<Rightarrow>
          if d0 \<noteq> 0x62 then Inl (InvalidFraming (d0 # d1 # rest))
          else
            (case convertCharToType d1 of
               Inl err \<Rightarrow> Inl err
             | Inr t \<Rightarrow>
                 (case DecodeString rest of
                    Inl err \<Rightarrow> Inl err
                  | Inr decoded \<Rightarrow> Inr (NewPacketCustom t (Some decoded) BINARY))))"

definition b64Codec_writeTo :: "'s Writer \<Rightarrow> 's \<Rightarrow> Packet \<Rightarrow> 's \<times> error option" where
  "b64Codec_writeTo write w packet =
     (case convertTypeToChar (Type packet) of
        Inl err \<Rightarrow> (w, Some err)
      | Inr t \<Rightarrow>
          if Data packet = None \<or> len (Data packet) < 1 then
            (case write w (Some [t]) of
               (w1, Some err) \<Rightarrow> (w1, Some err)
             | (w1, None) \<Rightarrow> (w1, None))
          else
            (case write w (Some [0x62]) of
               (w1, Some err) \<Rightarrow> (w1, Some err)
             | (w1, None) \<Rightarrow>
                 (case write w1 (Some [t]) of
                    (w2, Some err) \<Rightarrow> (w2, Some err)
                  | (w2, None) \<Rightarrow>
                      (let body = EncodeToString (bytes_of (Data packet))
                       in write w2 (Some body)))))"

definition b64Codec_encode :: "Packet \<Rightarrow> error + byte list" where
  "b64Codec_encode packet =
     (case b64Codec_writeTo Buffer_Write [] packet of
        (bf, Some err) \<Rightarrow> Inl err
      | (bf, None) \<Rightarrow> Inr bf)"

section \<open>Encoding, then decoding\<close>

text \<open>
  The composition the round-trip property is about: \<^verbatim>\<open>decode(encode(P))\<close> for each codec,
  an encoding error passed on.
\<close>

definition binCodec_roundtrip :: "Packet \<Rightarrow> error + Packet" where
  "binCodec_roundtrip p =
     (case binCodec_encode p of Inl err \<Rightarrow> Inl err | Inr bs \<Rightarrow> binCodec_decode (Some bs))"

definition strCodec_roundtrip :: "Packet \<Rightarrow> error + Packet" where
  "strCodec_roundtrip p =
     (case strCodec_encode p of Inl err \<Rightarrow> Inl err | Inr bs \<Rightarrow> strCodec_decode (Some bs))"

definition b64Codec_roundtrip :: "Packet \<Rightarrow> error + Packet" where
  "b64Codec_roundtrip p =
     (case b64Codec_encode p of Inl err \<Rightarrow> Inl err | Inr bs \<Rightarrow> b64Codec_decode (Some bs))"

section \<open>Facts about the base64 model\<close>

lemmas PacketType_defs =
  OPEN_def CLOSE_def PING_def PONG_def MESSAGE_def UPGRADE_def NOOP_def

lemma fill_decodeMap_other:
  "x \<notin> of_char ` set cs \<Longrightarrow> fill_decodeMap cs i m x = m x"
  by (induction cs arbitrary: i m) auto

lemma fill_decodeMap_nth:
  "distinct (map of_char cs :: byte list) \<Longrightarrow> n < length cs \<Longrightarrow>
   fill_decodeMap cs i m (of_char (cs ! n)) = of_nat (i + n)"
proof (induction cs arbitrary: i m n)
  case Nil
  then show ?case by simp
next
  case (Cons c cs)
  show ?case
  proof (cases n)
    case 0
    from Cons.prems have "(of_char c :: byte) \<notin> of_char ` set cs" by simp
    then show ?thesis
      using 0 by (simp add: fill_decodeMap_other)
  next
    case (Suc k)
    with Cons.prems have "distinct (map of_char cs :: byte list)" and "k < length cs"
      by simp_all
    then have "fill_decodeMap cs (Suc i) (m(of_char c := of_nat i)) (of_char (cs ! k)) =
        of_nat (Suc i + k)"
      by (rule Cons.IH)
    then show ?thesis
      using Suc by simp
  qed
qed

lemma distinct_encodeStd: "distinct (map of_char encodeStd :: byte list)"
  by (simp add: encodeStd_def)

lemma length_encodeStd: "length encodeStd = 64"
  by (simp add: encodeStd_def)

lemma decodeMap_encodeStd: "n < 64 \<Longrightarrow> decodeMap (of_char (encodeStd ! n)) = of_nat n"
  using fill_decodeMap_nth [OF distinct_encodeStd, of n 0 "\<lambda>_. 0xFF"]
  by (simp add: decodeMap_def length_encodeStd)

lemma unat_and_63: "unat ((x :: 32 word) AND 0x3F) < 64"
proof -
  have "x AND 0x3F \<le> 0x3F" by (rule word_and_le1)
  then show ?thesis by (simp add: word_le_nat_alt)
qed

lemma decodeMap_enc_encode:
  "decodeMap (enc_encode (x AND 0x3F)) = ucast (x AND 0x3F)"
  using decodeMap_encodeStd [OF unat_and_63 [of x]]
  by (simp add: enc_encode_def)

lemma sextet_not_FF: "(ucast ((x :: 32 word) AND 0x3F) :: byte) \<noteq> 0xFF"
proof
  assume h: "(ucast (x AND 0x3F) :: byte) = 0xFF"
  have "unat (ucast (x AND 0x3F) :: byte) = unat (x AND 0x3F)"
    using unat_and_63 [of x] by (simp add: unsigned_ucast_eq take_bit_nat_eq_self)
  with h have "unat (x AND 0x3F) = 255" by simp
  with unat_and_63 [of x] show False by simp
qed

lemma decodeMap_pad: "decodeMap 0x3D = 0xFF"
  by (simp add: decodeMap_def encodeStd_def)

lemma m6: "(0x3F :: 32 word) = mask 6"
  by (simp add: mask_eq_exp_minus_1)

lemma SucSuc_sub2: "2 \<le> n \<Longrightarrow> Suc (Suc (n - 2)) = n"
  by simp

lemma bits3:
  fixes a b c :: byte
  defines "val \<equiv> push_bit 16 (ucast a :: 32 word) OR push_bit 8 (ucast b) OR ucast c"
  shows "quantum_bytes [ucast (drop_bit 18 val AND 0x3F), ucast (drop_bit 12 val AND 0x3F),
            ucast (drop_bit 6 val AND 0x3F), ucast (val AND 0x3F)] = [a, b, c]"
  unfolding quantum_bytes_def val_def m6
  apply (simp add: Let_def)
  apply (intro conjI; rule bit_word_eqI; simp add: bit_simps; auto simp: SucSuc_sub2 dest: bit_imp_le_length)
  done

lemma bits2:
  fixes a b :: byte
  defines "val \<equiv> push_bit 16 (ucast a :: 32 word) OR push_bit 8 (ucast b)"
  shows "quantum_bytes [ucast (drop_bit 18 val AND 0x3F), ucast (drop_bit 12 val AND 0x3F),
            ucast (drop_bit 6 val AND 0x3F)] = [a, b]"
  unfolding quantum_bytes_def val_def m6
  apply (simp add: Let_def)
  apply (intro conjI; rule bit_word_eqI; simp add: bit_simps; auto simp: SucSuc_sub2 dest: bit_imp_le_length)
  done

lemma bits1:
  fixes a :: byte
  defines "val \<equiv> push_bit 16 (ucast a :: 32 word)"
  shows "quantum_bytes [ucast (drop_bit 18 val AND 0x3F), ucast (drop_bit 12 val AND 0x3F)] = [a]"
  unfolding quantum_bytes_def val_def m6
  apply (simp add: Let_def)
  apply (rule bit_word_eqI; simp add: bit_simps; auto simp: SucSuc_sub2 dest: bit_imp_le_length)
  done

lemma decode_step:
  "decodeMap c \<noteq> 0xFF \<Longrightarrow> length dbuf < 3 \<Longrightarrow>
   decode_from dbuf (c # src) = decode_from (dbuf @ [decodeMap c]) src"
  by (simp add: Let_def)

lemma decode_last:
  "decodeMap c \<noteq> 0xFF \<Longrightarrow> length dbuf = 3 \<Longrightarrow>
   decode_from dbuf (c # src) =
     (case decode_from [] src of
        Inl err \<Rightarrow> Inl err
      | Inr rest \<Rightarrow> Inr (quantum_bytes (dbuf @ [decodeMap c]) @ rest))"
  by (simp add: Let_def)

lemma decode_pad2: "length dbuf = 2 \<Longrightarrow> decode_from dbuf [0x3D, 0x3D] = Inr (quantum_bytes dbuf)"
  by (simp add: Let_def decodeMap_pad is_newline_def)

lemma decode_pad1: "length dbuf = 3 \<Longrightarrow> decode_from dbuf [0x3D] = Inr (quantum_bytes dbuf)"
  by (simp add: Let_def decodeMap_pad)

lemma decode_enc_step:
  "length dbuf < 3 \<Longrightarrow>
   decode_from dbuf (enc_encode (x AND 0x3F) # src) = decode_from (dbuf @ [ucast (x AND 0x3F)]) src"
  using decode_step [of "enc_encode (x AND 0x3F)" dbuf src]
  by (simp only: decodeMap_enc_encode sextet_not_FF not_False_eq_True)

lemma decode_enc_last:
  "length dbuf = 3 \<Longrightarrow>
   decode_from dbuf (enc_encode (x AND 0x3F) # src) =
     (case decode_from [] src of
        Inl err \<Rightarrow> Inl err
      | Inr rest \<Rightarrow> Inr (quantum_bytes (dbuf @ [ucast (x AND 0x3F)]) @ rest))"
  using decode_last [of "enc_encode (x AND 0x3F)" dbuf src]
  by (simp only: decodeMap_enc_encode sextet_not_FF not_False_eq_True)

lemma decode_quad:
  "decode_from [] (enc_encode (w AND 0x3F) # enc_encode (x AND 0x3F) #
                   enc_encode (y AND 0x3F) # enc_encode (z AND 0x3F) # src) =
     (case decode_from [] src of
        Inl err \<Rightarrow> Inl err
      | Inr rest \<Rightarrow>
          Inr (quantum_bytes [ucast (w AND 0x3F), ucast (x AND 0x3F),
                              ucast (y AND 0x3F), ucast (z AND 0x3F)] @ rest))"
  by (simp add: decode_enc_step decode_enc_last del: decode_from.simps cong: sum.case_cong)

lemma decode_triple_pad:
  "decode_from [] [enc_encode (w AND 0x3F), enc_encode (x AND 0x3F), enc_encode (y AND 0x3F), 0x3D] =
     Inr (quantum_bytes [ucast (w AND 0x3F), ucast (x AND 0x3F), ucast (y AND 0x3F)])"
  by (simp add: decode_enc_step decode_pad1 del: decode_from.simps)

lemma decode_pair_pad:
  "decode_from [] [enc_encode (w AND 0x3F), enc_encode (x AND 0x3F), 0x3D, 0x3D] =
     Inr (quantum_bytes [ucast (w AND 0x3F), ucast (x AND 0x3F)])"
  by (simp add: decode_enc_step decode_pad2 del: decode_from.simps)

lemma decode_from_EncodeToString: "decode_from [] (EncodeToString xs) = Inr xs"
proof (induction xs rule: EncodeToString.induct)
  case (1 a b c rest)
  have "decode_from [] (EncodeToString (a # b # c # rest)) =
      (case decode_from [] (EncodeToString rest) of
         Inl err \<Rightarrow> Inl err
       | Inr r \<Rightarrow> Inr ([a, b, c] @ r))"
    unfolding EncodeToString.simps enc_quantum_def Let_def append_Cons append_Nil
    by (subst decode_quad, subst bits3) (simp cong: sum.case_cong)
  then show ?case
    by (simp only: "1.IH" sum.case append_Cons append_Nil)
next
  case (2 a b)
  show ?case
    unfolding EncodeToString.simps Let_def
    by (subst decode_triple_pad, subst bits2) (rule refl)
next
  case (3 a)
  show ?case
    unfolding EncodeToString.simps Let_def
    by (subst decode_pair_pad, subst bits1) (rule refl)
next
  case 4
  show ?case by simp
qed

lemma EncodeToString_not_Nil: "xs \<noteq> [] \<Longrightarrow> EncodeToString xs \<noteq> []"
  by (induction xs rule: EncodeToString.induct) (simp_all add: enc_quantum_def Let_def)

section \<open>Facts about the table and the codecs\<close>

lemma convertCharToType_digit:
  "is_type_digit c \<Longrightarrow> convertCharToType c = Inr (c - 0x30)"
  by (auto simp: is_type_digit_def convertCharToType_def PacketType_defs)

lemma convertCharToType_not_digit:
  "\<not> is_type_digit c \<Longrightarrow> convertCharToType c = Inl (InvalidPacketType c)"
  by (simp add: is_type_digit_def convertCharToType_def)

lemma is_type_digit_valid: "is_type_digit c \<Longrightarrow> valid_type (c - 0x30)"
  by (auto simp: is_type_digit_def valid_type_def PacketType_defs)

lemma convertTypeToChar_valid:
  "valid_type t \<Longrightarrow> convertTypeToChar t = Inr (0x30 + t)"
  by (auto simp: valid_type_def convertTypeToChar_def PacketType_defs)

lemma convertTypeToChar_invalid:
  "\<not> valid_type t \<Longrightarrow> convertTypeToChar t = Inl (InvalidPacketType t)"
  by (simp add: valid_type_def convertTypeToChar_def)

lemma convertCharToType_of_valid:
  "valid_type t \<Longrightarrow> convertCharToType (0x30 + t) = Inr t"
  by (auto simp: valid_type_def convertCharToType_def PacketType_defs)

lemma valid_type_le: "valid_type t \<longleftrightarrow> t \<le> 6"
proof
  assume "valid_type t"
  then show "t \<le> 6"
    by (auto simp: valid_type_def PacketType_defs)
next
  assume "t \<le> 6"
  then have "unat t \<le> 6" by (simp add: word_le_nat_alt)
  then have "unat t \<in> {0, 1, 2, 3, 4, 5, 6}" by auto
  moreover have "t = of_nat n" if "unat t = n" for n
    using that by auto
  ultimately have "t \<in> {0, 1, 2, 3, 4, 5, 6}"
    by fastforce
  then show "valid_type t"
    by (simp add: valid_type_def PacketType_defs)
qed

lemma decode_from_error: "decode_from dbuf src = Inl e \<Longrightarrow> e = InvalidPayloadEncoding"
  by (induction dbuf src rule: decode_from.induct)
     (auto simp: Let_def split: if_splits sum.splits list.splits)

lemma DecodeString_error: "DecodeString s = Inl e \<Longrightarrow> e = InvalidPayloadEncoding"
  by (simp add: DecodeString_def decode_from_error)

lemma DecodeString_EncodeToString: "DecodeString (EncodeToString xs) = Inr xs"
  by (simp add: DecodeString_def decode_from_EncodeToString)

lemma binCodec_encode_eq: "binCodec_encode p = Inr (Type p # bytes_of (Data p))"
  by (cases "Data p")
     (simp_all add: binCodec_encode_def binCodec_writeTo_def Buffer_Write_def bytes_of_def len_def)

lemma strCodec_encode_eq:
  "valid_type (Type p) \<Longrightarrow> strCodec_encode p = Inr ((0x30 + Type p) # bytes_of (Data p))"
  by (simp add: strCodec_encode_def strCodec_writeTo_def Buffer_Write_def bytes_of_def
      convertTypeToChar_valid)

lemma b64Codec_encode_eq:
  "valid_type (Type p) \<Longrightarrow>
   b64Codec_encode p =
     Inr (if Data p = None \<or> len (Data p) < 1 then [0x30 + Type p]
          else 0x62 # (0x30 + Type p) # EncodeToString (bytes_of (Data p)))"
  by (simp add: b64Codec_encode_def b64Codec_writeTo_def Buffer_Write_def bytes_of_def
      convertTypeToChar_valid Let_def)

lemma binCodec_decode_valid:
  "valid_type t \<Longrightarrow> binCodec_decode (Some (t # rest)) = Inr \<lparr>Type = t, Data = Some rest, Flag = BINARY\<rparr>"
  by (auto simp: binCodec_decode_def valid_type_def NewPacketCustom_def Let_def)

lemma binCodec_decode_invalid:
  "\<not> valid_type t \<Longrightarrow> binCodec_decode (Some (t # rest)) = Inl (InvalidPacketType t)"
  by (auto simp: binCodec_decode_def valid_type_def Let_def)

lemma length_EncodeToString: "length (EncodeToString xs) = 4 * ((length xs + 2) div 3)"
proof (induction xs rule: EncodeToString.induct)
  case (1 a b c rest)
  have "(length rest + 3 + 2) div 3 = Suc ((length rest + 2) div 3)" by simp
  with 1 show ?case by (simp add: enc_quantum_def Let_def)
qed (simp_all add: Let_def)

lemma strCodec_writeTo_invalid:
  "\<not> valid_type (Type p) \<Longrightarrow>
   strCodec_writeTo write w p = (w, Some (InvalidPacketType (Type p)))"
  by (simp add: strCodec_writeTo_def convertTypeToChar_invalid)

lemma b64Codec_writeTo_invalid:
  "\<not> valid_type (Type p) \<Longrightarrow>
   b64Codec_writeTo write w p = (w, Some (InvalidPacketType (Type p)))"
  by (simp add: b64Codec_writeTo_def convertTypeToChar_invalid)

lemma strCodec_encode_invalid:
  "\<not> valid_type (Type p) \<Longrightarrow> strCodec_encode p = Inl (InvalidPacketType (Type p))"
  by (simp add: strCodec_encode_def strCodec_writeTo_invalid)

lemma b64Codec_encode_invalid:
  "\<not> valid_type (Type p) \<Longrightarrow> b64Codec_encode p = Inl (InvalidPacketType (Type p))"
  by (simp add: b64Codec_encode_def b64Codec_writeTo_invalid)

lemma b64Codec_decode_long:
  "b64Codec_decode (Some (d0 # d1 # rest)) =
     (if d0 \<noteq> 0x62 then Inl (InvalidFraming (d0 # d1 # rest))
      else if \<not> is_type_digit d1 then Inl (InvalidPacketType d1)
      else case DecodeString rest of
             Inl err \<Rightarrow> Inl InvalidPayloadEncoding
           | Inr decoded \<Rightarrow> Inr \<lparr>Type = d1 - 0x30, Data = Some decoded, Flag = BINARY\<rparr>)"
  using convertCharToType_digit [of d1] convertCharToType_not_digit [of d1]
  by (auto simp: b64Codec_decode_def NewPacketCustom_def dest: DecodeString_error
      split: sum.splits)

lemma DecodeString_Nil: "DecodeString [] = Inr []"
  by (simp add: DecodeString_def)

lemma DecodeString_bang: "DecodeString (ascii ''!!!'') = Inl InvalidPayloadEncoding"
  by (simp add: DecodeString_def ascii_def decodeMap_def encodeStd_def)

lemma DecodeString_hello: "DecodeString (ascii ''aGVsbG8='') = Inr (ascii ''hello'')"
  by (simp add: DecodeString_def ascii_def decodeMap_def encodeStd_def quantum_bytes_def
      is_newline_def)

lemma EncodeToString_abc: "EncodeToString (ascii ''abc'') = ascii ''YWJj''"
  by (simp add: ascii_def enc_quantum_def enc_encode_def encodeStd_def)

section \<open>The claims\<close>

subsection \<open>Binary codec\<close>

text \<open>
  Claim C6. For every non-empty input, binary decode reads byte 0 as the raw numeric type
  value, not as an ASCII digit: when it is one of 0 to 6 the result is the packet of that
  type, with the remaining bytes as Data and Flag = BINARY; otherwise decode fails with
  InvalidPacketType.
\<close>

theorem C6_binCodec_decode:
  "binCodec_decode (Some (d0 # rest)) =
     (if d0 \<le> 6 then Inr \<lparr>Type = d0, Data = Some rest, Flag = BINARY\<rparr>
      else Inl (InvalidPacketType d0))"
  using binCodec_decode_valid [of d0 rest] binCodec_decode_invalid [of d0 rest]
  by (simp add: valid_type_le)

text \<open>
  Witness of C6: the byte 4 followed by "hello" is a MESSAGE; a first byte 7 is refused,
  and so is the ASCII digit \<^verbatim>\<open>'4'\<close> (\<^verbatim>\<open>0x34\<close>).
\<close>

theorem C6_witness:
  "binCodec_decode (Some (4 # ascii ''hello'')) =
     Inr \<lparr>Type = MESSAGE, Data = Some (ascii ''hello''), Flag = BINARY\<rparr> \<and>
   binCodec_decode (Some (7 # ascii ''hello'')) = Inl (InvalidPacketType 7) \<and>
   binCodec_decode (Some (ascii ''4hello'')) = Inl (InvalidPacketType 0x34)"
  using C6_binCodec_decode [of 4 "ascii ''hello''"] C6_binCodec_decode [of 7 "ascii ''hello''"]
    C6_binCodec_decode [of "0x34" "ascii ''hello''"]
  by (simp add: MESSAGE_def ascii_def)

text \<open>
  Claim C7. For every packet with a valid Type, binary encode gives one byte equal to the
  numeric type value followed by the Data bytes; on a sink that records its calls, writeTo
  makes one \<^verbatim>\<open>Write\<close> call (the type byte) when Data is nil or empty, and two (the type
  byte, then Data) otherwise. In particular encode of \<^verbatim>\<open>{Type: PING, Data: nil}\<close> is the
  single byte 2.
\<close>

theorem C7_binCodec_writeTo:
  "valid_type (Type p) \<Longrightarrow>
   binCodec_encode p = Inr (Type p # bytes_of (Data p)) \<and>
   binCodec_writeTo Recorder_Write calls p =
     (if Data p = None \<or> len (Data p) < 1 then (calls @ [Some [Type p]], None)
      else (calls @ [Some [Type p], Data p], None)) \<and>
   binCodec_encode \<lparr>Type = PING, Data = None, Flag = f\<rparr> = Inr [2]"
  by (simp add: binCodec_encode_eq binCodec_writeTo_def Recorder_Write_def bytes_of_def PING_def)

text \<open>Witness of C7: a PING with nil Data, with empty Data, and with two bytes of Data.\<close>

theorem C7_witness:
  "valid_type PING \<and>
   binCodec_encode \<lparr>Type = PING, Data = None, Flag = 0\<rparr> = Inr [2] \<and>
   binCodec_writeTo Recorder_Write [] \<lparr>Type = PING, Data = None, Flag = 0\<rparr> =
     ([Some [2]], None) \<and>
   binCodec_writeTo Recorder_Write [] \<lparr>Type = PING, Data = Some [], Flag = 0\<rparr> =
     ([Some [2]], None) \<and>
   binCodec_writeTo Recorder_Write [] \<lparr>Type = PING, Data = Some [7, 8], Flag = 0\<rparr> =
     ([Some [2], Some [7, 8]], None)"
proof -
  have v: "valid_type PING" by (simp add: valid_type_def)
  show ?thesis
    using v C7_binCodec_writeTo [of "\<lparr>Type = PING, Data = None, Flag = 0\<rparr>" "[]" 0]
      C7_binCodec_writeTo [of "\<lparr>Type = PING, Data = Some [], Flag = 0\<rparr>" "[]" 0]
      C7_binCodec_writeTo [of "\<lparr>Type = PING, Data = Some [7, 8], Flag = 0\<rparr>" "[]" 0]
    by (simp add: len_def PING_def)
qed

subsection \<open>String codec\<close>

text \<open>
  Claim C8. For every packet with a valid Type, string encode gives the ASCII digit of the
  type followed by the Data bytes unchanged, and writeTo makes two \<^verbatim>\<open>Write\<close> calls, the
  second with Data even when Data is nil or empty. For every input whose first byte is one
  of the digits \<^verbatim>\<open>'0'\<close> to \<^verbatim>\<open>'6'\<close>, decode gives the type of that digit, the remaining
  bytes as Data, and Flag = 0. In particular encode of \<^verbatim>\<open>{MESSAGE, "hello"}\<close> is
  \<^verbatim>\<open>"4hello"\<close>, and decode of \<^verbatim>\<open>"4hello"\<close> is \<^verbatim>\<open>{MESSAGE, "hello", 0}\<close>.
\<close>

theorem C8_strCodec:
  "(valid_type (Type p) \<longrightarrow>
      strCodec_encode p = Inr ((0x30 + Type p) # bytes_of (Data p)) \<and>
      strCodec_writeTo Recorder_Write calls p = (calls @ [Some [0x30 + Type p], Data p], None)) \<and>
   (is_type_digit c \<longrightarrow>
      strCodec_decode (Some (c # rest)) = Inr \<lparr>Type = c - 0x30, Data = Some rest, Flag = 0\<rparr>) \<and>
   strCodec_encode \<lparr>Type = MESSAGE, Data = Some (ascii ''hello''), Flag = f\<rparr> =
     Inr (ascii ''4hello'') \<and>
   strCodec_decode (Some (ascii ''4hello'')) =
     Inr \<lparr>Type = MESSAGE, Data = Some (ascii ''hello''), Flag = 0\<rparr>"
proof -
  have m: "valid_type MESSAGE" by (simp add: valid_type_def)
  have d: "is_type_digit 0x34" by (simp add: is_type_digit_def)
  have "strCodec_encode \<lparr>Type = MESSAGE, Data = Some (ascii ''hello''), Flag = f\<rparr> =
     Inr (ascii ''4hello'')"
    using m by (simp add: strCodec_encode_eq bytes_of_def ascii_def MESSAGE_def)
  moreover have "strCodec_decode (Some (ascii ''4hello'')) =
     Inr \<lparr>Type = MESSAGE, Data = Some (ascii ''hello''), Flag = 0\<rparr>"
    using d by (simp add: strCodec_decode_def convertCharToType_digit NewPacketCustom_def
        ascii_def MESSAGE_def)
  ultimately show ?thesis
    by (simp add: strCodec_encode_eq strCodec_writeTo_def Recorder_Write_def
        convertTypeToChar_valid strCodec_decode_def convertCharToType_digit NewPacketCustom_def)
qed

text \<open>Witness of C8: a NOOP with nil Data is written in two calls; \<^verbatim>\<open>"2ab"\<close> is a PING.\<close>

theorem C8_witness:
  "valid_type NOOP \<and> is_type_digit 0x32 \<and>
   strCodec_encode \<lparr>Type = NOOP, Data = None, Flag = 0\<rparr> = Inr (ascii ''6'') \<and>
   strCodec_writeTo Recorder_Write [] \<lparr>Type = NOOP, Data = None, Flag = 0\<rparr> =
     ([Some (ascii ''6''), None], None) \<and>
   strCodec_decode (Some (ascii ''2ab'')) = Inr \<lparr>Type = PING, Data = Some (ascii ''ab''), Flag = 0\<rparr>"
proof -
  have v: "valid_type NOOP" by (simp add: valid_type_def)
  have d: "is_type_digit 0x32" by (simp add: is_type_digit_def)
  show ?thesis
    using v d C8_strCodec [of "\<lparr>Type = NOOP, Data = None, Flag = 0\<rparr>" "[]" "0x32" "ascii ''ab''" 0]
    by (simp add: bytes_of_def ascii_def NOOP_def PING_def)
qed

subsection \<open>Empty input\<close>

text \<open>
  Claim C9. For each of the three codecs, decode of a nil buffer and of a buffer of length
  zero fails with EmptyInput.
\<close>

theorem C9_decode_empty:
  "binCodec_decode None = Inl EmptyInput \<and> binCodec_decode (Some []) = Inl EmptyInput \<and>
   strCodec_decode None = Inl EmptyInput \<and> strCodec_decode (Some []) = Inl EmptyInput \<and>
   b64Codec_decode None = Inl EmptyInput \<and> b64Codec_decode (Some []) = Inl EmptyInput"
  by (simp add: binCodec_decode_def strCodec_decode_def b64Codec_decode_def)

subsection \<open>Base64 codec\<close>

text \<open>
  Claim C3. For every input of one byte, base64 decode gives the packet of the digit's type
  with empty Data and Flag = BINARY when the byte is one of the digits \<^verbatim>\<open>'0'\<close> to
  \<^verbatim>\<open>'6'\<close>, and fails with InvalidPacketType otherwise.
\<close>

theorem C3_b64_decode_short_form:
  "b64Codec_decode (Some [c]) =
     (if is_type_digit c then Inr \<lparr>Type = c - 0x30, Data = Some [], Flag = BINARY\<rparr>
      else Inl (InvalidPacketType c))"
  using convertCharToType_digit [of c] convertCharToType_not_digit [of c]
  by (simp add: b64Codec_decode_def NewPacketCustom_def)

text \<open>
  Witness of C3: \<^verbatim>\<open>"4"\<close> is a MESSAGE with empty Data and the BINARY flag;
  \<^verbatim>\<open>"9"\<close> and \<^verbatim>\<open>"b"\<close> are refused.
\<close>

theorem C3_witness:
  "b64Codec_decode (Some (ascii ''4'')) = Inr \<lparr>Type = MESSAGE, Data = Some [], Flag = BINARY\<rparr> \<and>
   b64Codec_decode (Some (ascii ''9'')) = Inl (InvalidPacketType 0x39) \<and>
   b64Codec_decode (Some (ascii ''b'')) = Inl (InvalidPacketType 0x62)"
  using C3_b64_decode_short_form [of "0x34"] C3_b64_decode_short_form [of "0x39"]
    C3_b64_decode_short_form [of "0x62"]
  by (simp add: is_type_digit_def ascii_def MESSAGE_def)

text \<open>
  Claim C4. For every input of two bytes or more, base64 decode fails with InvalidFraming
  (carrying the buffer) when byte 0 is not \<^verbatim>\<open>'b'\<close>, with InvalidPacketType when byte 0
  is \<^verbatim>\<open>'b'\<close> and byte 1 is not one of the digits \<^verbatim>\<open>'0'\<close> to \<^verbatim>\<open>'6'\<close>, and with
  InvalidPayloadEncoding when the bytes from index 2 on are refused by the base64 decoder;
  otherwise it gives the packet of the digit's type with the decoded bytes as Data and
  Flag = BINARY. In particular \<^verbatim>\<open>"x4"\<close> is InvalidFraming and \<^verbatim>\<open>"b4!!!"\<close> is
  InvalidPayloadEncoding.
\<close>

theorem C4_b64_decode_long_form:
  "b64Codec_decode (Some (d0 # d1 # rest)) =
     (if d0 \<noteq> 0x62 then Inl (InvalidFraming (d0 # d1 # rest))
      else if \<not> is_type_digit d1 then Inl (InvalidPacketType d1)
      else case DecodeString rest of
             Inl err \<Rightarrow> Inl InvalidPayloadEncoding
           | Inr decoded \<Rightarrow> Inr \<lparr>Type = d1 - 0x30, Data = Some decoded, Flag = BINARY\<rparr>) \<and>
   b64Codec_decode (Some (ascii ''x4'')) = Inl (InvalidFraming (ascii ''x4'')) \<and>
   b64Codec_decode (Some (ascii ''b4!!!'')) = Inl InvalidPayloadEncoding"
proof -
  have "b64Codec_decode (Some (ascii ''x4'')) = Inl (InvalidFraming (ascii ''x4''))"
    using b64Codec_decode_long [of "0x78" "0x34" "[]"] by (simp add: ascii_def)
  moreover have "b64Codec_decode (Some (ascii ''b4!!!'')) = Inl InvalidPayloadEncoding"
    using b64Codec_decode_long [of "0x62" "0x34" "ascii ''!!!''"] DecodeString_bang
    by (simp add: ascii_def is_type_digit_def)
  ultimately show ?thesis
    by (simp only: b64Codec_decode_long simp_thms)
qed

text \<open>
  Witness of C4: \<^verbatim>\<open>"b4aGVsbG8="\<close> is the MESSAGE "hello" with the BINARY flag;
  \<^verbatim>\<open>"b9aGVsbG8="\<close> has no valid type digit and \<^verbatim>\<open>"44"\<close> no \<^verbatim>\<open>'b'\<close>.
\<close>

theorem C4_witness:
  "b64Codec_decode (Some (ascii ''b4aGVsbG8='')) =
     Inr \<lparr>Type = MESSAGE, Data = Some (ascii ''hello''), Flag = BINARY\<rparr> \<and>
   b64Codec_decode (Some (ascii ''b9aGVsbG8='')) = Inl (InvalidPacketType 0x39) \<and>
   b64Codec_decode (Some (ascii ''44'')) = Inl (InvalidFraming (ascii ''44''))"
  using C4_b64_decode_long_form [of "0x62" "0x34" "ascii ''aGVsbG8=''"]
    C4_b64_decode_long_form [of "0x62" "0x39" "ascii ''aGVsbG8=''"]
    C4_b64_decode_long_form [of "0x34" "0x34" "[]"]
    DecodeString_hello
  by (simp add: ascii_def is_type_digit_def MESSAGE_def)

text \<open>
  Claim C5. For every packet with a valid Type, base64 encode gives the ASCII digit of the
  type alone when Data is nil or empty, and \<^verbatim>\<open>'b'\<close>, the digit and the padded base64
  text of Data otherwise. In particular encode of \<^verbatim>\<open>{OPEN, "abc"}\<close> is \<^verbatim>\<open>"b0YWJj"\<close>
  and encode of \<^verbatim>\<open>{NOOP, nil}\<close> is \<^verbatim>\<open>"6"\<close>.
\<close>

theorem C5_b64_encode:
  "(valid_type (Type p) \<longrightarrow>
      b64Codec_encode p =
        Inr (if Data p = None \<or> len (Data p) < 1 then [0x30 + Type p]
             else 0x62 # (0x30 + Type p) # EncodeToString (bytes_of (Data p)))) \<and>
   b64Codec_encode \<lparr>Type = OPEN, Data = Some (ascii ''abc''), Flag = f\<rparr> = Inr (ascii ''b0YWJj'') \<and>
   b64Codec_encode \<lparr>Type = NOOP, Data = None, Flag = f\<rparr> = Inr (ascii ''6'')"
proof -
  have o: "valid_type OPEN" and n: "valid_type NOOP" by (simp_all add: valid_type_def)
  have "b64Codec_encode \<lparr>Type = OPEN, Data = Some (ascii ''abc''), Flag = f\<rparr> = Inr (ascii ''b0YWJj'')"
    using o EncodeToString_abc
    by (simp add: b64Codec_encode_eq bytes_of_def len_def ascii_def OPEN_def)
  moreover have "b64Codec_encode \<lparr>Type = NOOP, Data = None, Flag = f\<rparr> = Inr (ascii ''6'')"
    using n by (simp add: b64Codec_encode_eq ascii_def NOOP_def)
  ultimately show ?thesis
    using b64Codec_encode_eq [of p] by simp
qed

text \<open>Witness of C5: a MESSAGE with empty Data, and one with the Data "abc".\<close>

theorem C5_witness:
  "valid_type MESSAGE \<and>
   b64Codec_encode \<lparr>Type = MESSAGE, Data = Some [], Flag = 0\<rparr> = Inr (ascii ''4'') \<and>
   b64Codec_encode \<lparr>Type = MESSAGE, Data = Some (ascii ''abc''), Flag = 0\<rparr> = Inr (ascii ''b4YWJj'')"
proof -
  have v: "valid_type MESSAGE" by (simp add: valid_type_def)
  show ?thesis
    using v EncodeToString_abc
      C5_b64_encode [of "\<lparr>Type = MESSAGE, Data = Some [], Flag = 0\<rparr>" 0]
      C5_b64_encode [of "\<lparr>Type = MESSAGE, Data = Some (ascii ''abc''), Flag = 0\<rparr>" 0]
    by (simp add: bytes_of_def len_def ascii_def MESSAGE_def)
qed

text \<open>
  Claim C10. For every valid type, base64 decode accepts \<^verbatim>\<open>'b'\<close> followed by the type's
  digit, with the same result as for the digit alone: the packet of that type with empty
  Data and Flag = BINARY. No packet is encoded to \<^verbatim>\<open>'b'\<close> followed by the digit, and
  base64 decode is not injective.
\<close>

theorem C10_b64_decode_not_injective:
  "valid_type t \<Longrightarrow>
   b64Codec_decode (Some [0x62, 0x30 + t]) = Inr \<lparr>Type = t, Data = Some [], Flag = BINARY\<rparr> \<and>
   b64Codec_decode (Some [0x30 + t]) = Inr \<lparr>Type = t, Data = Some [], Flag = BINARY\<rparr> \<and>
   (\<forall>p. b64Codec_encode p \<noteq> Inr [0x62, 0x30 + t]) \<and>
   \<not> inj b64Codec_decode"
proof -
  assume v: "valid_type t"
  have long: "b64Codec_decode (Some [0x62, 0x30 + t]) =
      Inr \<lparr>Type = t, Data = Some [], Flag = BINARY\<rparr>"
    using v by (simp add: b64Codec_decode_def convertCharToType_of_valid DecodeString_Nil
        NewPacketCustom_def)
  have short: "b64Codec_decode (Some [0x30 + t]) =
      Inr \<lparr>Type = t, Data = Some [], Flag = BINARY\<rparr>"
    using v by (simp add: b64Codec_decode_def convertCharToType_of_valid NewPacketCustom_def)
  have never: "b64Codec_encode p \<noteq> Inr [0x62, 0x30 + t]" for p
  proof (cases "valid_type (Type p)")
    case True
    show ?thesis
    proof (cases "Data p = None \<or> len (Data p) < 1")
      case True
      with \<open>valid_type (Type p)\<close> show ?thesis by (simp add: b64Codec_encode_eq)
    next
      case False
      then have "bytes_of (Data p) \<noteq> []"
        by (auto simp: len_def bytes_of_def split: option.splits)
      then have "EncodeToString (bytes_of (Data p)) \<noteq> []"
        by (rule EncodeToString_not_Nil)
      with False \<open>valid_type (Type p)\<close> show ?thesis by (simp add: b64Codec_encode_eq)
    qed
  next
    case False
    then show ?thesis by (simp add: b64Codec_encode_invalid)
  qed
  have "\<not> inj b64Codec_decode"
  proof
    assume "inj b64Codec_decode"
    moreover have "b64Codec_decode (Some [0x30 + t]) = b64Codec_decode (Some [0x62, 0x30 + t])"
      using long short by simp
    ultimately have "Some [0x30 + t] = Some [0x62, 0x30 + t]" by (rule injD)
    then show False by simp
  qed
  with long short never show ?thesis by blast
qed

text \<open>Witness of C10: \<^verbatim>\<open>"b4"\<close> and \<^verbatim>\<open>"4"\<close> decode to the same MESSAGE.\<close>

theorem C10_witness:
  "valid_type MESSAGE \<and>
   b64Codec_decode (Some (ascii ''b4'')) = Inr \<lparr>Type = MESSAGE, Data = Some [], Flag = BINARY\<rparr> \<and>
   b64Codec_decode (Some (ascii ''4'')) = Inr \<lparr>Type = MESSAGE, Data = Some [], Flag = BINARY\<rparr> \<and>
   (\<forall>p. b64Codec_encode p \<noteq> Inr (ascii ''b4'')) \<and>
   \<not> inj b64Codec_decode"
proof -
  have v: "valid_type MESSAGE" by (simp add: valid_type_def)
  show ?thesis
    using v C10_b64_decode_not_injective [OF v] by (simp add: ascii_def MESSAGE_def)
qed

subsection \<open>Packets of an invalid type\<close>

text \<open>
  Claim C2 says that encode of each of the three codecs refuses a packet whose Type is not
  one of the seven, with InvalidPacketType and nothing written. The string and the base64
  codec do; the binary codec does not look at the type: for Type = 7 its writeTo makes one
  \<^verbatim>\<open>Write\<close> call with the byte 7, and its encode returns that byte.
\<close>

theorem C2_binCodec_writes_invalid_type:
  "\<not> valid_type 7 \<and>
   binCodec_writeTo Recorder_Write [] \<lparr>Type = 7, Data = None, Flag = 0\<rparr> = ([Some [7]], None) \<and>
   binCodec_encode \<lparr>Type = 7, Data = None, Flag = 0\<rparr> = Inr [7] \<and>
   strCodec_encode \<lparr>Type = 7, Data = None, Flag = 0\<rparr> = Inl (InvalidPacketType 7) \<and>
   b64Codec_encode \<lparr>Type = 7, Data = None, Flag = 0\<rparr> = Inl (InvalidPacketType 7)"
proof -
  have v: "\<not> valid_type 7" by (simp add: valid_type_le)
  then show ?thesis
    by (simp add: binCodec_encode_eq bytes_of_def binCodec_writeTo_def Recorder_Write_def
        strCodec_encode_invalid b64Codec_encode_invalid)
qed

subsection \<open>Round trip\<close>

text \<open>
  Claim C1 says that for a packet of a valid type decode after encode gives the packet
  back, Flag included, unless the codec is base64 and the payload empty. It fails on the
  flag: the binary decoder sets BINARY on a packet that had Flag = 0, and the string decoder
  sets 0 on a packet that had Flag = BINARY, both with a payload that is not empty.
\<close>

theorem C1_roundtrip_flag_counterexample:
  "valid_type MESSAGE \<and>
   binCodec_roundtrip \<lparr>Type = MESSAGE, Data = Some (ascii ''hi''), Flag = 0\<rparr> \<noteq>
     Inr \<lparr>Type = MESSAGE, Data = Some (ascii ''hi''), Flag = 0\<rparr> \<and>
   strCodec_roundtrip \<lparr>Type = MESSAGE, Data = Some (ascii ''hi''), Flag = BINARY\<rparr> \<noteq>
     Inr \<lparr>Type = MESSAGE, Data = Some (ascii ''hi''), Flag = BINARY\<rparr>"
proof -
  have v: "valid_type MESSAGE" by (simp add: valid_type_def)
  then have "binCodec_roundtrip \<lparr>Type = MESSAGE, Data = Some (ascii ''hi''), Flag = 0\<rparr> =
      Inr \<lparr>Type = MESSAGE, Data = Some (ascii ''hi''), Flag = BINARY\<rparr>"
    by (simp add: binCodec_roundtrip_def binCodec_encode_eq binCodec_decode_valid bytes_of_def)
  moreover have "strCodec_roundtrip \<lparr>Type = MESSAGE, Data = Some (ascii ''hi''), Flag = BINARY\<rparr> =
      Inr \<lparr>Type = MESSAGE, Data = Some (ascii ''hi''), Flag = 0\<rparr>"
    using v by (simp add: strCodec_roundtrip_def strCodec_encode_eq strCodec_decode_def
        convertCharToType_of_valid NewPacketCustom_def bytes_of_def)
  ultimately show ?thesis
    using v by (simp add: BINARY_def)
qed

text \<open>
  Claim C1 as amended. For every packet of a valid type and each of the three codecs,
  decode after encode succeeds with the packet's Type and the packet's Data bytes (a nil
  Data comes back as the empty slice), and the Flag the decoder sets whatever the packet's
  Flag was: BINARY for the binary and the base64 codec, 0 for the string codec.
\<close>

theorem C1_roundtrip_amended:
  "valid_type (Type p) \<Longrightarrow>
   binCodec_roundtrip p = Inr \<lparr>Type = Type p, Data = Some (bytes_of (Data p)), Flag = BINARY\<rparr> \<and>
   strCodec_roundtrip p = Inr \<lparr>Type = Type p, Data = Some (bytes_of (Data p)), Flag = 0\<rparr> \<and>
   b64Codec_roundtrip p = Inr \<lparr>Type = Type p, Data = Some (bytes_of (Data p)), Flag = BINARY\<rparr>"
proof -
  assume v: "valid_type (Type p)"
  have bin: "binCodec_roundtrip p =
      Inr \<lparr>Type = Type p, Data = Some (bytes_of (Data p)), Flag = BINARY\<rparr>"
    using v by (simp add: binCodec_roundtrip_def binCodec_encode_eq binCodec_decode_valid)
  have str: "strCodec_roundtrip p =
      Inr \<lparr>Type = Type p, Data = Some (bytes_of (Data p)), Flag = 0\<rparr>"
    using v by (simp add: strCodec_roundtrip_def strCodec_encode_eq strCodec_decode_def
        convertCharToType_of_valid NewPacketCustom_def)
  have b64: "b64Codec_roundtrip p =
      Inr \<lparr>Type = Type p, Data = Some (bytes_of (Data p)), Flag = BINARY\<rparr>"
  proof (cases "Data p = None \<or> len (Data p) < 1")
    case True
    then have "bytes_of (Data p) = []"
      by (auto simp: len_def bytes_of_def split: option.splits)
    with True v show ?thesis
      by (simp add: b64Codec_roundtrip_def b64Codec_encode_eq b64Codec_decode_def
          convertCharToType_of_valid NewPacketCustom_def)
  next
    case False
    with v show ?thesis
      by (auto simp: b64Codec_roundtrip_def b64Codec_encode_eq b64Codec_decode_def
          convertCharToType_of_valid DecodeString_EncodeToString NewPacketCustom_def)
  qed
  from bin str b64 show ?thesis by simp
qed

text \<open>
  Witness of C1 as amended: the MESSAGE "hello" with the BINARY flag comes back unchanged
  from the binary and the base64 codec, and with Flag = 0 from the string codec.
\<close>

theorem C1_witness:
  "valid_type MESSAGE \<and>
   binCodec_roundtrip \<lparr>Type = MESSAGE, Data = Some (ascii ''hello''), Flag = BINARY\<rparr> =
     Inr \<lparr>Type = MESSAGE, Data = Some (ascii ''hello''), Flag = BINARY\<rparr> \<and>
   strCodec_roundtrip \<lparr>Type = MESSAGE, Data = Some (ascii ''hello''), Flag = BINARY\<rparr> =
     Inr \<lparr>Type = MESSAGE, Data = Some (ascii ''hello''), Flag = 0\<rparr> \<and>
   b64Codec_roundtrip \<lparr>Type = MESSAGE, Data = Some (ascii ''hello''), Flag = BINARY\<rparr> =
     Inr \<lparr>Type = MESSAGE, Data = Some (ascii ''hello''), Flag = BINARY\<rparr>"
proof -
  have v: "valid_type MESSAGE" by (simp add: valid_type_def)
  show ?thesis
    using v C1_roundtrip_amended [of "\<lparr>Type = MESSAGE, Data = Some (ascii ''hello''), Flag = BINARY\<rparr>"]
    by (simp add: bytes_of_def)
qed

end
